theory Spec2Isabelle
  imports Main "HOL-Library.Sublist" "HOL-Library.AList"
begin

section \<open>Configuration token resolver (parse\_util.cpp)\<close>

subsection \<open>C strings and the comparison used by the resolver\<close>

text \<open>
  A \<open>std::string\<close> is a \<open>string\<close> (a list of 8-bit characters). \<open>c_str()\<close>
  hands the C library a pointer to the characters followed by a terminating NUL, so the
  library sees the characters up to the first NUL only.
\<close>

definition NUL :: char where
  "NUL = char_of (0::nat)"

definition c_str :: "string \<Rightarrow> string" where
  "c_str s = takeWhile (\<lambda>c. c \<noteq> NUL) s"

text \<open>Reading a character of a C string: past the last character is the terminator.\<close>

fun peek :: "string \<Rightarrow> char" where
  "peek [] = NUL"
| "peek (c # cs) = c"

text \<open>\<open>tolower\<close> of the C locale: the 26 letters \<open>A\<close> .. \<open>Z\<close> move by 32.\<close>

definition tolower :: "char \<Rightarrow> char" where
  "tolower c =
     (let n = (of_char c :: nat) in if 65 \<le> n \<and> n \<le> 90 then char_of (n + 32) else c)"

text \<open>
  POSIX \<open>strncasecmp(s1, s2, n)\<close>: compares at most \<open>n\<close> characters, ignoring case,
  stops after a NUL that both strings share, and returns the difference of the first
  pair of characters that differ (as unsigned characters), or 0.
\<close>

fun strncasecmp :: "string \<Rightarrow> string \<Rightarrow> nat \<Rightarrow> int" where
  "strncasecmp s1 s2 0 = 0"
| "strncasecmp s1 s2 (Suc n) =
     (let c1 = tolower (peek s1); c2 = tolower (peek s2) in
      if c1 \<noteq> c2 then int (of_char c1) - int (of_char c2)
      else if c1 = NUL then 0
      else strncasecmp (tl s1) (tl s2) n)"

subsection \<open>The tables\<close>

text \<open>
  \<open>InputType\<close> is declared in parse\_util.h; its enumerators are the case labels of
  the switch in \<open>parseType\<close>. A C++ enum can also hold a value that is none of its
  enumerators, which the switch sends to \<open>default\<close>: \<open>TOKEN_OTHER v\<close>.
\<close>

datatype InputType =
    TOKEN_OPT
  | TOKEN_COST
  | TOKEN_NET
  | TOKEN_ACTI
  | TOKEN_LAYER
  | TOKEN_WEIGHTINI
  | TOKEN_WEIGHT_DECAY
  | TOKEN_UNKNOWN
  | TOKEN_OTHER int

definition optimizer_string :: "string list" where
  "optimizer_string = [''sgd'', ''adam'', ''unknown'']"

definition cost_string :: "string list" where
  "cost_string = [''msr'', ''cross'', ''unknown'']"

definition network_type_string :: "string list" where
  "network_type_string = [''knn'', ''regression'', ''neuralnet'', ''unknown'']"

definition activation_string :: "string list" where
  "activation_string = [''tanh'', ''sigmoid'', ''relu'', ''softmax'', ''unknown'']"

definition layer_string :: "string list" where
  "layer_string = [''input'', ''fully_connected'', ''batch_normalization'', ''unknown'']"

definition weight_ini_string :: "string list" where
  "weight_ini_string =
     [''lecun_normal'', ''lecun_uniform'', ''xavier_normal'', ''xavier_uniform'',
      ''he_normal'', ''he_uniform'', ''unknown'']"

definition weight_decay_string :: "string list" where
  "weight_decay_string = [''l2norm'', ''regression'', ''unknown'']"

definition property_string :: "string list" where
  "property_string =
     [''input_shape'', ''bias_zero'', ''normalization'', ''standardization'',
      ''activation'', ''epsilon'', ''weight_decay'', ''unknown'']"

subsection \<open>The lookup loop\<close>

text \<open>
  Every arm of the switch, and \<open>parseLayerProperty\<close>, is the same loop over its own
  array:
  \<^verbatim>\<open>
  for (i = 0; i < tbl.size(); i++) {
    if (!strncasecmp(tbl[i].c_str(), ll.c_str(), tbl[i].size())) { return (i); }
  }
  ret = i - 1;
  \<close>
  \<open>scan\<close> is the loop from index \<open>i\<close> on: \<open>Inl k\<close> is the \<open>return (k)\<close> inside
  the loop, \<open>Inr i\<close> is the value of \<open>i\<close> when the loop has run to its end.
\<close>

function scan :: "string list \<Rightarrow> string \<Rightarrow> nat \<Rightarrow> nat + nat" where
  "scan tbl ll i =
     (if i < length tbl then
        (if strncasecmp (c_str (tbl ! i)) (c_str ll) (length (tbl ! i)) = 0 then Inl i
         else scan tbl ll (i + 1))
      else Inr i)"
  by pat_completeness auto
termination
  by (relation "measure (\<lambda>(tbl, ll, i). length tbl - i)") auto

declare scan.simps [simp del]

text \<open>
  After the loop, \<open>ret = i - 1\<close> is computed in \<open>unsigned int\<close>, kept in the
  \<open>int\<close> \<open>ret\<close> and returned as \<open>unsigned int\<close>: the value is \<open>i - 1\<close>
  modulo \<open>2 ^ 32\<close> (only an empty array would make it wrap; the arrays have 3 to 8
  entries).
\<close>

definition unsigned_int :: "int \<Rightarrow> nat" where
  "unsigned_int x = nat (x mod 2 ^ 32)"

definition lookup :: "string list \<Rightarrow> string \<Rightarrow> nat" where
  "lookup tbl ll =
     (case scan tbl ll 0 of
        Inl k \<Rightarrow> k
      | Inr i \<Rightarrow> unsigned_int (int i - 1))"

fun parseType :: "string \<Rightarrow> InputType \<Rightarrow> nat" where
  "parseType ll TOKEN_OPT = lookup optimizer_string ll"
| "parseType ll TOKEN_COST = lookup cost_string ll"
| "parseType ll TOKEN_NET = lookup network_type_string ll"
| "parseType ll TOKEN_ACTI = lookup activation_string ll"
| "parseType ll TOKEN_LAYER = lookup layer_string ll"
| "parseType ll TOKEN_WEIGHTINI = lookup weight_ini_string ll"
| "parseType ll TOKEN_WEIGHT_DECAY = lookup weight_decay_string ll"
| "parseType ll TOKEN_UNKNOWN = 3"
| "parseType ll (TOKEN_OTHER v) = 3"

definition parseLayerProperty :: "string \<Rightarrow> nat" where
  "parseLayerProperty property = lookup property_string property"

subsection \<open>Vocabulary for the statements about the resolver\<close>

text \<open>The array that the arm of the switch for a category scans; the arm
  \<open>TOKEN_UNKNOWN\<close> / \<open>default\<close> scans none.\<close>

fun table_of :: "InputType \<Rightarrow> string list option" where
  "table_of TOKEN_OPT = Some optimizer_string"
| "table_of TOKEN_COST = Some cost_string"
| "table_of TOKEN_NET = Some network_type_string"
| "table_of TOKEN_ACTI = Some activation_string"
| "table_of TOKEN_LAYER = Some layer_string"
| "table_of TOKEN_WEIGHTINI = Some weight_ini_string"
| "table_of TOKEN_WEIGHT_DECAY = Some weight_decay_string"
| "table_of TOKEN_UNKNOWN = None"
| "table_of (TOKEN_OTHER v) = None"

text \<open>The reserved index of a table: its last one, where the entry \<open>unknown\<close> stands.\<close>

definition unknown_index :: "string list \<Rightarrow> nat" where
  "unknown_index tbl = length tbl - 1"


definition lower :: "string \<Rightarrow> string" where
  "lower s = map tolower s"

text \<open>Entry \<open>e\<close> is a case-insensitive prefix of the token \<open>ll\<close>.\<close>

definition ci_prefix :: "string \<Rightarrow> string \<Rightarrow> bool" where
  "ci_prefix e ll = prefix (lower e) (lower ll)"

text \<open>The token \<open>ll\<close> abbreviates the entry \<open>e\<close>: it is a proper case-insensitive
  prefix of it.\<close>

definition abbreviates :: "string \<Rightarrow> string \<Rightarrow> bool" where
  "abbreviates ll e = strict_prefix (lower ll) (lower e)"


text \<open>No character of any entry is NUL.\<close>

definition nul_free :: "string list \<Rightarrow> bool" where
  "nul_free tbl = list_all (\<lambda>e. list_all (\<lambda>c. c \<noteq> NUL) e) tbl"

text \<open>No entry of the table is a case-insensitive prefix of another one.\<close>

definition clash :: "string \<Rightarrow> string \<Rightarrow> bool" where
  "clash a b = (ci_prefix a b \<or> ci_prefix b a)"

fun prefix_free :: "string list \<Rightarrow> bool" where
  "prefix_free [] = True"
| "prefix_free (e # es) = (list_all (\<lambda>x. \<not> clash e x) es \<and> prefix_free es)"

text \<open>What the proofs use of a table: the two properties above, its size, and that its
  last entry is \<open>unknown\<close>.\<close>

definition well_formed :: "string list \<Rightarrow> bool" where
  "well_formed tbl \<longleftrightarrow> nul_free tbl \<and> prefix_free tbl \<and> 0 < length tbl \<and> length tbl \<le> 8
     \<and> last tbl = ''unknown''"

section \<open>Optimizer interface (optimizer\_devel.h)\<close>

subsection \<open>Errors\<close>

text \<open>A C++ exception that leaves a function is the \<open>Inl\<close> of its result.\<close>

datatype error = ConfigurationError | IOFailure

subsection \<open>Default hooks of the base class\<close>

text \<open>
  \<^verbatim>\<open>virtual void exportTo(Exporter &exporter, const ExportMethods &method) const { }\<close>
  and \<^verbatim>\<open>virtual void finalize(){};\<close>. The state a call can reach is the object
  itself and, for \<open>exportTo\<close>, the exporter passed by reference; the function returns
  that state as the empty body leaves it. The classes \<open>Exporter\<close> and
  \<open>ExportMethods\<close> are only declared in the header: type variables.
\<close>

definition Optimizer_exportTo :: "'opt \<Rightarrow> 'exporter \<Rightarrow> 'method \<Rightarrow> 'opt \<times> 'exporter" where
  "Optimizer_exportTo this exporter method = (this, exporter)"

definition Optimizer_finalize :: "'opt \<Rightarrow> 'opt" where
  "Optimizer_finalize this = this"

subsection \<open>The factory\<close>

text \<open>
  \<^verbatim>\<open>
  template <typename T, ...>
  std::unique_ptr<Optimizer> createOptimizer(const std::vector<std::string> &props = {}) {
    std::unique_ptr<Optimizer> ptr = std::make_unique<T>();
    ptr->setProperty(props);
    return ptr;
  }
  \<close>
  The free store is the list of the live objects, and a pointer is an index into it.
  The template argument \<open>T\<close> comes in as its default-constructed object \<open>new_T\<close>
  and its (virtual) \<open>setProperty\<close>, which returns nothing and may throw. When it
  throws, the exception leaves \<open>createOptimizer\<close> and the destructor of \<open>ptr\<close>
  deletes the object.
\<close>

definition createOptimizer ::
  "'opt \<Rightarrow> (string list \<Rightarrow> 'opt \<Rightarrow> error + 'opt) \<Rightarrow> string list \<Rightarrow> 'opt list
     \<Rightarrow> (error + nat) \<times> 'opt list" where
  "createOptimizer new_T setProperty_T props store =
     (let ptr = length store; store1 = store @ [new_T] in
      case setProperty_T props (store1 ! ptr) of
        Inl e \<Rightarrow> (Inl e, store)
      | Inr configured \<Rightarrow> (Inr ptr, store1[ptr := configured]))"

subsection \<open>Configuration of an instance\<close>

text \<open>
  Modelled from the spec: the state of an optimizer instance, of which the header declares
  the interface only. Section 3: it "holds hyperparameters ... as its own mutable state, set
  once via property configuration", and "scalar book-keeping such as step count". A
  hyperparameter is kept as the token that set it, under the index of its key; a scalar
  of the book-keeping is kept as the bytes of its fixed-width field.
\<close>

record Optimizer =
  hyperparameters :: "(nat \<times> string) list"
  book_keeping :: "string list"

text \<open>
  Modelled from the spec: the body of \<open>Optimizer::setProperty\<close>, which the header only
  declares. Section 4.1: it "consumes an ordered sequence of textual key/value tokens; each
  recognized key updates one hyperparameter; an unrecognized key signals a
  configuration-error condition that must propagate to the caller"; section 6: a token is
  \<open>key\<close> or \<open>key=value\<close>, keys are case-insensitive, and a later occurrence of a key
  overrides an earlier one. The keys that an algorithm recognises are its own and appear
  nowhere in the sources: the parameter \<open>keys\<close>.
\<close>

definition key_of :: "string \<Rightarrow> string" where
  "key_of v = takeWhile (\<lambda>c. c \<noteq> CHR ''='') v"

fun key_index :: "string list \<Rightarrow> string \<Rightarrow> nat option" where
  "key_index [] k = None"
| "key_index (e # es) k =
     (if lower e = lower k then Some 0 else map_option Suc (key_index es k))"

fun setProperty :: "string list \<Rightarrow> string list \<Rightarrow> Optimizer \<Rightarrow> error + Optimizer" where
  "setProperty keys [] opt = Inr opt"
| "setProperty keys (v # values) opt =
     (case key_index keys (key_of v) of
        None \<Rightarrow> Inl ConfigurationError
      | Some key \<Rightarrow>
          setProperty keys values
            (opt\<lparr>hyperparameters := AList.update key v (hyperparameters opt)\<rparr>))"

subsection \<open>Checkpoints\<close>

text \<open>
  Modelled from the spec: the bodies of \<open>Optimizer::save\<close> and \<open>Optimizer::read\<close>,
  which the header only declares. Section 4.1: they "round-trip the instance's internal
  scalar book-keeping ... to/from a byte stream"; section 6: the stream holds "an ordered
  sequence of fixed-width scalar fields specific to each algorithm", with no header;
  section 7: "read failure must not mutate the instance". The widths of the fields, in
  bytes, are what the algorithm fixes: the parameter \<open>widths\<close>. \<open>save\<close> appends to the
  stream, \<open>read\<close> consumes from its front and returns what is left.
\<close>

definition save :: "Optimizer \<Rightarrow> string \<Rightarrow> string" where
  "save opt file = file @ concat (book_keeping opt)"

fun split_fields :: "nat list \<Rightarrow> string \<Rightarrow> string list" where
  "split_fields [] bytes = []"
| "split_fields (w # ws) bytes = take w bytes # split_fields ws (drop w bytes)"

definition read :: "nat list \<Rightarrow> Optimizer \<Rightarrow> string \<Rightarrow> (error + unit) \<times> Optimizer \<times> string" where
  "read widths opt file =
     (if length file < sum_list widths then (Inl IOFailure, opt, file)
      else (Inr (), opt\<lparr>book_keeping := split_fields widths file\<rparr>,
            drop (sum_list widths) file))"

text \<open>
  \<open>applyGradient\<close> is pure virtual: any function that, from the instance and the context
  it is given, yields the instance and the context as the call leaves them (the bound
  variable is part of the context). \<open>train\<close> feeds an instance a sequence of contexts and
  collects the contexts as each call leaves them.
\<close>

fun train :: "(Optimizer \<Rightarrow> 'ctx \<Rightarrow> Optimizer \<times> 'ctx) \<Rightarrow> Optimizer \<Rightarrow> 'ctx list \<Rightarrow> 'ctx list" where
  "train applyGradient opt [] = []"
| "train applyGradient opt (c # cs) =
     (case applyGradient opt c of (opt', c') \<Rightarrow> c' # train applyGradient opt' cs)"

section \<open>Facts about the resolver\<close>

subsection \<open>The comparison is a case-insensitive prefix test\<close>

lemma of_char_NUL: "(of_char NUL :: nat) = 0"
  by (simp add: NUL_def)

lemma of_char_tolower:
  "(of_char (tolower c) :: nat) =
     (if 65 \<le> (of_char c :: nat) \<and> (of_char c :: nat) \<le> 90 then of_char c + 32 else of_char c)"
  by (simp add: tolower_def Let_def)

lemma NUL_iff: "c = NUL \<longleftrightarrow> (of_char c :: nat) = 0"
proof
  assume "c = NUL" then show "(of_char c :: nat) = 0" by (simp add: of_char_NUL)
next
  assume "(of_char c :: nat) = 0"
  then have "(of_char c :: nat) = of_char NUL" by (simp add: of_char_NUL)
  then show "c = NUL" by (simp only: of_char_eq_iff)
qed

lemma tolower_NUL_iff: "tolower c = NUL \<longleftrightarrow> c = NUL"
  by (simp add: NUL_iff of_char_tolower)

lemma tolower_NUL: "tolower NUL = NUL"
  by (simp add: tolower_NUL_iff)

lemma strncasecmp_0_iff:
  "NUL \<notin> set e \<Longrightarrow> strncasecmp e s (length e) = 0 \<longleftrightarrow> prefix (lower e) (lower s)"
proof (induction e arbitrary: s)
  case Nil
  then show ?case by (simp add: lower_def)
next
  case (Cons c cs)
  from Cons.prems have c: "tolower c \<noteq> NUL" and cs: "NUL \<notin> set cs"
    by (auto simp: tolower_NUL_iff)
  show ?case
  proof (cases s)
    case Nil
    with c show ?thesis by (simp add: lower_def tolower_NUL Let_def)
  next
    case (Cons d ds)
    with c Cons.IH [OF cs, of ds] show ?thesis
      by (simp add: lower_def Let_def)
  qed
qed

lemma c_str_id: "NUL \<notin> set e \<Longrightarrow> c_str e = e"
  by (auto simp add: c_str_def takeWhile_eq_all_conv)

lemma prefix_lower_c_str:
  "NUL \<notin> set e \<Longrightarrow> prefix (lower e) (lower (c_str ll)) \<longleftrightarrow> prefix (lower e) (lower ll)"
proof (induction e arbitrary: ll)
  case Nil
  then show ?case by (simp add: lower_def)
next
  case (Cons c cs)
  from Cons.prems have c: "tolower c \<noteq> NUL" and cs: "NUL \<notin> set cs"
    by (auto simp: tolower_NUL_iff)
  show ?case
  proof (cases ll)
    case Nil
    then show ?thesis by (simp add: c_str_def)
  next
    case (Cons d ds)
    show ?thesis
    proof (cases "d = NUL")
      case True
      with c Cons show ?thesis by (auto simp add: c_str_def lower_def tolower_NUL)
    next
      case False
      with Cons Cons.IH [OF cs, of ds] show ?thesis
        by (simp add: c_str_def lower_def)
    qed
  qed
qed

lemma entry_test_iff:
  "NUL \<notin> set e \<Longrightarrow>
   strncasecmp (c_str e) (c_str ll) (length e) = 0 \<longleftrightarrow> ci_prefix e ll"
  by (simp add: c_str_id strncasecmp_0_iff prefix_lower_c_str ci_prefix_def)

lemma nul_free_nth: "nul_free tbl \<Longrightarrow> i < length tbl \<Longrightarrow> NUL \<notin> set (tbl ! i)"
  by (auto simp: nul_free_def list_all_iff)

lemma scan_Inl:
  "scan tbl ll i = Inl k \<Longrightarrow> nul_free tbl \<Longrightarrow>
   i \<le> k \<and> k < length tbl \<and> ci_prefix (tbl ! k) ll \<and>
   (\<forall>j. i \<le> j \<and> j < k \<longrightarrow> \<not> ci_prefix (tbl ! j) ll)"
proof (induction tbl ll i rule: scan.induct)
  case (1 tbl ll i)
  show ?case
  proof (cases "i < length tbl")
    case False
    with "1.prems" show ?thesis by (simp add: scan.simps [of tbl ll i])
  next
    case True
    note lt = this
    then have nf: "NUL \<notin> set (tbl ! i)" using "1.prems" by (simp add: nul_free_nth)
    show ?thesis
    proof (cases "ci_prefix (tbl ! i) ll")
      case True
      with lt nf "1.prems" show ?thesis
        by (auto simp add: scan.simps [of tbl ll i] entry_test_iff)
    next
      case False
      with lt nf have t: "strncasecmp (c_str (tbl ! i)) (c_str ll) (length (tbl ! i)) \<noteq> 0"
        by (simp add: entry_test_iff)
      with lt "1.prems" have "scan tbl ll (i + 1) = Inl k"
        by (simp add: scan.simps [of tbl ll i])
      with "1.IH" [OF lt t] "1.prems"
      have ih: "i + 1 \<le> k \<and> k < length tbl \<and> ci_prefix (tbl ! k) ll \<and>
        (\<forall>j. i + 1 \<le> j \<and> j < k \<longrightarrow> \<not> ci_prefix (tbl ! j) ll)" by simp
      have "\<not> ci_prefix (tbl ! j) ll" if "i \<le> j" "j < k" for j
      proof (cases "j = i")
        case True with False show ?thesis by simp
      next
        case False with that ih show ?thesis by simp
      qed
      with ih show ?thesis by simp
    qed
  qed
qed

lemma scan_Inr:
  "scan tbl ll i = Inr m \<Longrightarrow> nul_free tbl \<Longrightarrow>
   m = max i (length tbl) \<and> (\<forall>j. i \<le> j \<and> j < length tbl \<longrightarrow> \<not> ci_prefix (tbl ! j) ll)"
proof (induction tbl ll i rule: scan.induct)
  case (1 tbl ll i)
  show ?case
  proof (cases "i < length tbl")
    case False
    with "1.prems" show ?thesis by (auto simp add: scan.simps [of tbl ll i])
  next
    case True
    note lt = this
    then have nf: "NUL \<notin> set (tbl ! i)" using "1.prems" by (simp add: nul_free_nth)
    show ?thesis
    proof (cases "ci_prefix (tbl ! i) ll")
      case True
      with lt nf "1.prems" show ?thesis
        by (simp add: scan.simps [of tbl ll i] entry_test_iff)
    next
      case False
      with lt nf have t: "strncasecmp (c_str (tbl ! i)) (c_str ll) (length (tbl ! i)) \<noteq> 0"
        by (simp add: entry_test_iff)
      with lt "1.prems" have "scan tbl ll (i + 1) = Inr m"
        by (simp add: scan.simps [of tbl ll i])
      with "1.IH" [OF lt t] "1.prems"
      have ih: "m = max (i + 1) (length tbl) \<and>
        (\<forall>j. i + 1 \<le> j \<and> j < length tbl \<longrightarrow> \<not> ci_prefix (tbl ! j) ll)" by simp
      have "\<not> ci_prefix (tbl ! j) ll" if "i \<le> j" "j < length tbl" for j
      proof (cases "j = i")
        case True with False show ?thesis by simp
      next
        case False with that ih show ?thesis by simp
      qed
      with ih lt show ?thesis by auto
    qed
  qed
qed

lemma wrap_pred: "0 < n \<Longrightarrow> n \<le> 2 ^ 32 \<Longrightarrow> unsigned_int (int n - 1) = n - 1"
proof -
  assume a: "0 < n" "n \<le> 2 ^ 32"
  then have "0 \<le> int n - 1" "int n - 1 < 2 ^ 32" by simp_all
  then have "(int n - 1) mod 2 ^ 32 = int n - 1" by (rule mod_pos_pos_trivial)
  then show ?thesis by (simp add: unsigned_int_def nat_diff_distrib)
qed

lemma lookup_first:
  assumes nf: "nul_free tbl" and i: "i < length tbl"
    and m: "ci_prefix (tbl ! i) ll" and e: "\<forall>j<i. \<not> ci_prefix (tbl ! j) ll"
  shows "lookup tbl ll = i"
proof (cases "scan tbl ll 0")
  case (Inl k)
  from scan_Inl [OF Inl nf] have k: "k < length tbl" "ci_prefix (tbl ! k) ll"
    "\<forall>j<k. \<not> ci_prefix (tbl ! j) ll" by auto
  have "k = i"
  proof (rule ccontr)
    assume "k \<noteq> i"
    then consider "k < i" | "i < k" by linarith
    then show False
    proof cases
      case 1 with e k(2) show False by simp
    next
      case 2 with k(3) m show False by simp
    qed
  qed
  with Inl show ?thesis by (simp add: lookup_def)
next
  case (Inr n)
  from scan_Inr [OF Inr nf] i m show ?thesis by auto
qed

lemma lookup_none:
  assumes nf: "nul_free tbl" and ne: "0 < length tbl" and le: "length tbl \<le> 2 ^ 32"
    and e: "\<forall>j<length tbl. \<not> ci_prefix (tbl ! j) ll"
  shows "lookup tbl ll = unknown_index tbl"
proof (cases "scan tbl ll 0")
  case (Inl k)
  from scan_Inl [OF Inl nf] e show ?thesis by auto
next
  case (Inr n)
  from scan_Inr [OF Inr nf] have "n = length tbl" by simp
  with Inr ne le show ?thesis by (simp add: lookup_def unknown_index_def wrap_pred)
qed

lemma lookup_cases:
  assumes nf: "nul_free tbl" and ne: "0 < length tbl" and le: "length tbl \<le> 2 ^ 32"
  shows "(lookup tbl ll < length tbl \<and> ci_prefix (tbl ! lookup tbl ll) ll \<and>
            (\<forall>j<lookup tbl ll. \<not> ci_prefix (tbl ! j) ll))
       \<or> (lookup tbl ll = unknown_index tbl \<and> (\<forall>j<length tbl. \<not> ci_prefix (tbl ! j) ll))"
proof (cases "scan tbl ll 0")
  case (Inl k)
  from scan_Inl [OF Inl nf] Inl show ?thesis by (simp add: lookup_def)
next
  case (Inr n)
  from scan_Inr [OF Inr nf] have "n = length tbl" "\<forall>j<length tbl. \<not> ci_prefix (tbl ! j) ll" by simp_all
  with Inr ne le show ?thesis by (simp add: lookup_def unknown_index_def wrap_pred)
qed

subsection \<open>Facts about the eight tables\<close>

lemma wf_optimizer: "well_formed optimizer_string" unfolding well_formed_def by code_simp
lemma wf_cost: "well_formed cost_string" unfolding well_formed_def by code_simp
lemma wf_network: "well_formed network_type_string" unfolding well_formed_def by code_simp
lemma wf_activation: "well_formed activation_string" unfolding well_formed_def by code_simp
lemma wf_layer: "well_formed layer_string" unfolding well_formed_def by code_simp
lemma wf_weight_ini: "well_formed weight_ini_string" unfolding well_formed_def by code_simp
lemma wf_weight_decay: "well_formed weight_decay_string" unfolding well_formed_def by code_simp
lemma wf_property: "well_formed property_string" unfolding well_formed_def by code_simp

lemma wf_table_of: "table_of t = Some tbl \<Longrightarrow> well_formed tbl"
  by (cases t)
    (auto simp: wf_optimizer wf_cost wf_network wf_activation wf_layer wf_weight_ini
      wf_weight_decay)

lemma parseType_lookup: "table_of t = Some tbl \<Longrightarrow> parseType ll t = lookup tbl ll"
  by (cases t) auto

lemma wf_lookup_first:
  "well_formed tbl \<Longrightarrow> i < length tbl \<Longrightarrow> ci_prefix (tbl ! i) ll \<Longrightarrow>
   \<forall>j<i. \<not> ci_prefix (tbl ! j) ll \<Longrightarrow> lookup tbl ll = i"
  by (rule lookup_first) (simp_all add: well_formed_def)

lemma wf_lookup_none:
  "well_formed tbl \<Longrightarrow> \<forall>j<length tbl. \<not> ci_prefix (tbl ! j) ll \<Longrightarrow>
   lookup tbl ll = unknown_index tbl"
  by (rule lookup_none) (simp_all add: well_formed_def)

lemma wf_unknown_entry: "well_formed tbl \<Longrightarrow> tbl ! unknown_index tbl = ''unknown''"
  by (auto simp add: well_formed_def unknown_index_def last_conv_nth)

lemma prefix_free_nth:
  "prefix_free tbl \<Longrightarrow> j < i \<Longrightarrow> i < length tbl \<Longrightarrow> \<not> clash (tbl ! j) (tbl ! i)"
proof (induction tbl arbitrary: i j)
  case Nil
  then show ?case by simp
next
  case (Cons e es)
  from Cons.prems obtain i' where i': "i = Suc i'" by (cases i) auto
  show ?case
  proof (cases j)
    case 0
    with Cons.prems i' show ?thesis by (auto simp: list_all_iff)
  next
    case (Suc j')
    with Cons.prems i' Cons.IH [of j' i'] show ?thesis by simp
  qed
qed

lemma clash_sym: "clash a b = clash b a"
  by (auto simp: clash_def)

lemma wf_no_clash:
  assumes "well_formed tbl" "i < length tbl" "j < length tbl" "i \<noteq> j"
  shows "\<not> clash (tbl ! j) (tbl ! i)"
proof -
  from assms(1) have pf: "prefix_free tbl" by (simp add: well_formed_def)
  from assms(4) consider "j < i" | "i < j" by linarith
  then show ?thesis
  proof cases
    case 1 with pf assms(2) show ?thesis by (simp add: prefix_free_nth)
  next
    case 2 with pf assms(3) have "\<not> clash (tbl ! i) (tbl ! j)" by (simp add: prefix_free_nth)
    then show ?thesis by (simp add: clash_sym)
  qed
qed

lemma ci_prefix_append: "ci_prefix e (e @ s)"
  by (simp add: ci_prefix_def lower_def)

lemma ci_prefix_of_extension:
  "ci_prefix a (b @ s) \<Longrightarrow> clash a b"
  by (auto simp: ci_prefix_def clash_def lower_def prefix_append)

lemma lookup_extension:
  assumes wf: "well_formed tbl" and i: "i < length tbl"
  shows "lookup tbl (tbl ! i @ s) = i"
proof (rule wf_lookup_first [OF wf i ci_prefix_append])
  show "\<forall>j<i. \<not> ci_prefix (tbl ! j) (tbl ! i @ s)"
  proof (intro allI impI)
    fix j assume j: "j < i"
    with i have "j < length tbl" "i \<noteq> j" by simp_all
    with wf i have "\<not> clash (tbl ! j) (tbl ! i)" by (simp add: wf_no_clash)
    then show "\<not> ci_prefix (tbl ! j) (tbl ! i @ s)" using ci_prefix_of_extension by blast
  qed
qed

lemma abbreviates_no_match:
  assumes wf: "well_formed tbl" and i: "i < length tbl" and a: "abbreviates ll (tbl ! i)"
    and j: "j < length tbl"
  shows "\<not> ci_prefix (tbl ! j) ll"
proof
  assume m: "ci_prefix (tbl ! j) ll"
  from a have sp: "strict_prefix (lower ll) (lower (tbl ! i))" by (simp add: abbreviates_def)
  with m have p: "prefix (lower (tbl ! j)) (lower (tbl ! i))"
    by (auto simp: ci_prefix_def strict_prefix_def)
  show False
  proof (cases "i = j")
    case True
    with m sp show False by (auto simp: ci_prefix_def strict_prefix_def)
  next
    case False
    with wf i j have "\<not> clash (tbl ! j) (tbl ! i)" by (simp add: wf_no_clash)
    with p show False by (simp add: clash_def ci_prefix_def)
  qed
qed

lemma lookup_abbreviation:
  assumes wf: "well_formed tbl" and i: "i < length tbl" and a: "abbreviates ll (tbl ! i)"
  shows "lookup tbl ll = unknown_index tbl"
  by (rule wf_lookup_none [OF wf]) (simp add: abbreviates_no_match [OF wf i a])



subsection \<open>When the reserved index comes back\<close>



section \<open>Facts about the optimizer interface\<close>

lemma createOptimizer_Inl:
  "setProperty_T props new_T = Inl e \<Longrightarrow>
   createOptimizer new_T setProperty_T props store = (Inl e, store)"
  by (simp add: createOptimizer_def Let_def)

lemma setProperty_not_a_real_key:
  "setProperty [''learning_rate''] [''not_a_real_key=1'']
     \<lparr>hyperparameters = [], book_keeping = []\<rparr> = Inl ConfigurationError"
  by code_simp

lemma split_fields_concat:
  "split_fields (map length fs) (concat fs @ rest) = fs"
  by (induction fs) simp_all

lemma sum_list_widths: "sum_list (map length fs) = length (concat fs)"
  by (induction fs) simp_all

section \<open>The claims about the resolver\<close>

text \<open>
  C1. For every token and every category that has a table (and for the layer-property
  table of \<open>parseLayerProperty\<close>), the resolver returns the index of the first entry
  that is a case-insensitive prefix of the token; when no entry is one, it returns the
  reserved index, which is the last index of the table, where the entry \<open>unknown\<close>
  stands.
\<close>

theorem resolver_first_match:
  "(table_of t = Some tbl \<longrightarrow>
      (\<forall>i<length tbl. ci_prefix (tbl ! i) ll \<and> (\<forall>j<i. \<not> ci_prefix (tbl ! j) ll)
          \<longrightarrow> parseType ll t = i)
    \<and> ((\<forall>i<length tbl. \<not> ci_prefix (tbl ! i) ll) \<longrightarrow> parseType ll t = unknown_index tbl)
    \<and> unknown_index tbl = length tbl - 1 \<and> tbl ! unknown_index tbl = ''unknown'')
   \<and> (\<forall>i<length property_string.
          ci_prefix (property_string ! i) ll \<and> (\<forall>j<i. \<not> ci_prefix (property_string ! j) ll)
          \<longrightarrow> parseLayerProperty ll = i)
   \<and> ((\<forall>i<length property_string. \<not> ci_prefix (property_string ! i) ll)
          \<longrightarrow> parseLayerProperty ll = unknown_index property_string)
   \<and> unknown_index property_string = length property_string - 1
   \<and> property_string ! unknown_index property_string = ''unknown''"
proof (intro conjI impI allI)
  fix i
  assume t: "table_of t = Some tbl" and i: "i < length tbl"
    and m: "ci_prefix (tbl ! i) ll \<and> (\<forall>j<i. \<not> ci_prefix (tbl ! j) ll)"
  from t have "well_formed tbl" by (rule wf_table_of)
  with i m have "lookup tbl ll = i" by (simp add: wf_lookup_first)
  with t show "parseType ll t = i" by (simp add: parseType_lookup)
next
  assume t: "table_of t = Some tbl" and n: "\<forall>i<length tbl. \<not> ci_prefix (tbl ! i) ll"
  from t have "well_formed tbl" by (rule wf_table_of)
  with n have "lookup tbl ll = unknown_index tbl" by (simp add: wf_lookup_none)
  with t show "parseType ll t = unknown_index tbl" by (simp add: parseType_lookup)
next
  assume "table_of t = Some tbl"
  show "unknown_index tbl = length tbl - 1" by (simp add: unknown_index_def)
next
  assume "table_of t = Some tbl"
  then have "well_formed tbl" by (rule wf_table_of)
  then show "tbl ! unknown_index tbl = ''unknown''" by (rule wf_unknown_entry)
next
  fix i
  assume i: "i < length property_string"
    and m: "ci_prefix (property_string ! i) ll \<and> (\<forall>j<i. \<not> ci_prefix (property_string ! j) ll)"
  with wf_property show "parseLayerProperty ll = i"
    by (simp add: parseLayerProperty_def wf_lookup_first)
next
  assume "\<forall>i<length property_string. \<not> ci_prefix (property_string ! i) ll"
  with wf_property show "parseLayerProperty ll = unknown_index property_string"
    by (simp add: parseLayerProperty_def wf_lookup_none)
next
  show "unknown_index property_string = length property_string - 1"
    by (simp add: unknown_index_def)
next
  show "property_string ! unknown_index property_string = ''unknown''"
    using wf_property by (rule wf_unknown_entry)
qed

theorem resolver_first_match_witness:
  "table_of TOKEN_ACTI = Some activation_string
   \<and> ci_prefix (activation_string ! 2) ''ReLU6''
   \<and> \<not> ci_prefix (activation_string ! 0) ''ReLU6''
   \<and> \<not> ci_prefix (activation_string ! 1) ''ReLU6''
   \<and> parseType ''ReLU6'' TOKEN_ACTI = 2
   \<and> list_all (\<lambda>e. \<not> ci_prefix e ''elu'') activation_string
   \<and> parseType ''elu'' TOKEN_ACTI = 4
   \<and> ci_prefix (property_string ! 5) ''EPSILON=0.001''
   \<and> list_all (\<lambda>e. \<not> ci_prefix e ''EPSILON=0.001'') (take 5 property_string)
   \<and> parseLayerProperty ''EPSILON=0.001'' = 5
   \<and> list_all (\<lambda>e. \<not> ci_prefix e ''learning_rate=0.1'') property_string
   \<and> parseLayerProperty ''learning_rate=0.1'' = 7"
proof -
  have t: "table_of TOKEN_ACTI = Some activation_string" by simp
  have len: "length activation_string = 5" "length property_string = 8"
    by (simp_all add: activation_string_def property_string_def)
  have a1: "ci_prefix (activation_string ! 2) ''ReLU6''" by code_simp
  have a2: "\<forall>j<2. \<not> ci_prefix (activation_string ! j) ''ReLU6''" by code_simp
  have a3: "\<not> ci_prefix (activation_string ! 0) ''ReLU6''"
    "\<not> ci_prefix (activation_string ! 1) ''ReLU6''" by code_simp+
  have b: "\<forall>i<length activation_string. \<not> ci_prefix (activation_string ! i) ''elu''"
    unfolding len by code_simp
  have b': "list_all (\<lambda>e. \<not> ci_prefix e ''elu'') activation_string" by code_simp
  have c1: "ci_prefix (property_string ! 5) ''EPSILON=0.001''" by code_simp
  have c2: "\<forall>j<5. \<not> ci_prefix (property_string ! j) ''EPSILON=0.001''" by code_simp
  have c2': "list_all (\<lambda>e. \<not> ci_prefix e ''EPSILON=0.001'') (take 5 property_string)"
    by code_simp
  have d: "\<forall>i<length property_string. \<not> ci_prefix (property_string ! i) ''learning_rate=0.1''"
    unfolding len by code_simp
  have d': "list_all (\<lambda>e. \<not> ci_prefix e ''learning_rate=0.1'') property_string"
    by code_simp
  have u: "unknown_index activation_string = 4" "unknown_index property_string = 7"
    by (simp_all add: unknown_index_def len)
  from resolver_first_match [of TOKEN_ACTI activation_string "''ReLU6''"] t a1 a2 len
  have r1: "parseType ''ReLU6'' TOKEN_ACTI = 2" by simp
  from resolver_first_match [of TOKEN_ACTI activation_string "''elu''"] t b u
  have r2: "parseType ''elu'' TOKEN_ACTI = 4" by simp
  from resolver_first_match [of _ _ "''EPSILON=0.001''"] c1 c2 len
  have r3: "parseLayerProperty ''EPSILON=0.001'' = 5" by simp
  from resolver_first_match [of _ _ "''learning_rate=0.1''"] d u
  have r4: "parseLayerProperty ''learning_rate=0.1'' = 7" by simp
  from t a1 a3 b' c1 c2' d' r1 r2 r3 r4 show ?thesis by simp
qed

text \<open>
  C3 (as the sources behave). The resolver does not accept abbreviated tokens. The token
  \<open>sig\<close> under the activation category resolves to the reserved index 4, not to the
  index 1 of \<open>sigmoid\<close>: the comparison runs over the whole length of the entry, so an
  entry matches only a token that starts with it.
\<close>

theorem abbreviation_counterexample:
  "activation_string ! 1 = ''sigmoid''
   \<and> abbreviates ''sig'' ''sigmoid''
   \<and> parseType ''sig'' TOKEN_ACTI \<noteq> 1
   \<and> parseType ''sig'' TOKEN_ACTI = unknown_index activation_string"
  by code_simp

text \<open>
  C3 (amended). Every token that is a proper case-insensitive prefix of an entry of the
  table resolves to the reserved index of that table; a token resolves to \<open>sigmoid\<close>
  exactly when \<open>sigmoid\<close> is a case-insensitive prefix of the token.
\<close>

theorem abbreviation_rejected:
  "(table_of t = Some tbl \<and> i < length tbl \<and> abbreviates ll (tbl ! i) \<longrightarrow>
      parseType ll t = unknown_index tbl)
   \<and> (i < length property_string \<and> abbreviates ll (property_string ! i) \<longrightarrow>
      parseLayerProperty ll = unknown_index property_string)
   \<and> (parseType ll TOKEN_ACTI = 1 \<longleftrightarrow> ci_prefix ''sigmoid'' ll)"
proof -
  have a: "parseType ll t = unknown_index tbl"
    if "table_of t = Some tbl" "i < length tbl" "abbreviates ll (tbl ! i)"
  proof -
    from that(1) have "well_formed tbl" by (rule wf_table_of)
    then have "lookup tbl ll = unknown_index tbl" using that(2,3) by (rule lookup_abbreviation)
    with that(1) show ?thesis by (simp add: parseType_lookup)
  qed
  have b: "parseLayerProperty ll = unknown_index property_string"
    if "i < length property_string" "abbreviates ll (property_string ! i)"
    using wf_property that by (simp add: parseLayerProperty_def lookup_abbreviation)
  have wf: "well_formed activation_string" by (rule wf_activation)
  then have sz: "nul_free activation_string" "0 < length activation_string"
    "length activation_string \<le> 2 ^ 32" by (simp_all add: well_formed_def)
  have n1: "activation_string ! 1 = ''sigmoid''" "activation_string ! 0 = ''tanh''"
    "(1::nat) < length activation_string" "unknown_index activation_string = 4"
    by (simp_all add: activation_string_def unknown_index_def)
  have c: "parseType ll TOKEN_ACTI = 1 \<longleftrightarrow> ci_prefix ''sigmoid'' ll"
  proof
    assume r: "parseType ll TOKEN_ACTI = 1"
    from lookup_cases [OF sz, of ll] r n1 show "ci_prefix ''sigmoid'' ll" by auto
  next
    assume m: "ci_prefix ''sigmoid'' ll"
    have "\<not> ci_prefix ''tanh'' ll"
    proof
      assume "ci_prefix ''tanh'' ll"
      with m have "clash ''tanh'' ''sigmoid''"
        by (auto simp: ci_prefix_def clash_def dest: prefix_same_cases)
      moreover have "\<not> clash ''tanh'' ''sigmoid''" by code_simp
      ultimately show False by simp
    qed
    with m n1 have "lookup activation_string ll = 1"
      by (intro wf_lookup_first [OF wf]) simp_all
    then show "parseType ll TOKEN_ACTI = 1" by simp
  qed
  from a b c show ?thesis by (auto simp del: parseType.simps)
qed

theorem abbreviation_rejected_witness:
  "table_of TOKEN_ACTI = Some activation_string
   \<and> abbreviates ''sig'' (activation_string ! 1)
   \<and> parseType ''sig'' TOKEN_ACTI = 4
   \<and> unknown_index activation_string = 4
   \<and> abbreviates ''EPS'' (property_string ! 5)
   \<and> parseLayerProperty ''EPS'' = 7
   \<and> unknown_index property_string = 7
   \<and> ci_prefix ''sigmoid'' ''Sigmoid_v2''
   \<and> parseType ''Sigmoid_v2'' TOKEN_ACTI = 1"
proof -
  have t: "table_of TOKEN_ACTI = Some activation_string" by simp
  have l: "(1::nat) < length activation_string" "(5::nat) < length property_string"
    by (simp_all add: activation_string_def property_string_def)
  have a: "abbreviates ''sig'' (activation_string ! 1)"
    "abbreviates ''EPS'' (property_string ! 5)" by code_simp+
  have u: "unknown_index activation_string = 4" "unknown_index property_string = 7"
    by (simp_all add: unknown_index_def activation_string_def property_string_def)
  have m: "ci_prefix ''sigmoid'' ''Sigmoid_v2''" by code_simp
  from abbreviation_rejected [of TOKEN_ACTI activation_string 1 "''sig''"] t l(1) a(1) u(1)
  have r1: "parseType ''sig'' TOKEN_ACTI = 4" by simp
  from abbreviation_rejected [of _ _ 5 "''EPS''"] l(2) a(2) u(2)
  have r2: "parseLayerProperty ''EPS'' = 7" by simp
  from abbreviation_rejected [of _ _ _ "''Sigmoid_v2''"] m
  have r3: "parseType ''Sigmoid_v2'' TOKEN_ACTI = 1" by simp
  from t a u m r1 r2 r3 show ?thesis by simp
qed

text \<open>
  C9. For every token, \<open>parseType\<close> with the category \<open>TOKEN_UNKNOWN\<close>, or with a
  value that is none of the enumerators, returns 3 whatever the token is. 3 is the
  reserved index of the four-entry tables (network type, layer) and differs from the
  reserved index 2 of the three-entry tables (optimizer, cost).
\<close>

theorem unknown_category_constant:
  "parseType ll TOKEN_UNKNOWN = 3 \<and> parseType ll (TOKEN_OTHER v) = 3
   \<and> table_of TOKEN_UNKNOWN = None \<and> table_of (TOKEN_OTHER v) = None
   \<and> length network_type_string = 4 \<and> unknown_index network_type_string = 3
   \<and> length layer_string = 4 \<and> unknown_index layer_string = 3
   \<and> length optimizer_string = 3 \<and> unknown_index optimizer_string = 2
   \<and> length cost_string = 3 \<and> unknown_index cost_string = 2"
  by (simp add: unknown_index_def network_type_string_def layer_string_def
      optimizer_string_def cost_string_def)

text \<open>
  C10. A token made of an entry of the table followed by any characters resolves to the
  index of that entry, in every category and in the layer-property lookup; for an entry
  other than the last one that index is not the reserved one.
\<close>

theorem suffix_accepted:
  "(table_of t = Some tbl \<and> i < length tbl \<longrightarrow> parseType (tbl ! i @ extra) t = i)
   \<and> (table_of t = Some tbl \<and> i < unknown_index tbl \<longrightarrow>
        parseType (tbl ! i @ extra) t \<noteq> unknown_index tbl)
   \<and> (i < length property_string \<longrightarrow> parseLayerProperty (property_string ! i @ extra) = i)
   \<and> (i < unknown_index property_string \<longrightarrow>
        parseLayerProperty (property_string ! i @ extra) \<noteq> unknown_index property_string)"
proof -
  have a: "parseType (tbl ! i @ extra) t = i" if "table_of t = Some tbl" "i < length tbl"
  proof -
    from that(1) have "well_formed tbl" by (rule wf_table_of)
    then have "lookup tbl (tbl ! i @ extra) = i" using that(2) by (rule lookup_extension)
    with that(1) show ?thesis by (simp add: parseType_lookup)
  qed
  have b: "parseLayerProperty (property_string ! i @ extra) = i" if "i < length property_string"
    using wf_property that by (simp add: parseLayerProperty_def lookup_extension)
  have c: "i < length x" if "i < unknown_index x" for x :: "string list"
    using that by (simp add: unknown_index_def)
  from a b c show ?thesis by (auto simp del: parseType.simps)
qed

theorem suffix_accepted_witness:
  "table_of TOKEN_OPT = Some optimizer_string
   \<and> optimizer_string ! 1 @ ''ant'' = ''adamant''
   \<and> parseType ''adamant'' TOKEN_OPT = 1
   \<and> unknown_index optimizer_string = 2
   \<and> property_string ! 0 @ ''_anything'' = ''input_shape_anything''
   \<and> parseLayerProperty ''input_shape_anything'' = 0
   \<and> unknown_index property_string = 7"
proof -
  have t: "table_of TOKEN_OPT = Some optimizer_string" by simp
  have e: "optimizer_string ! 1 @ ''ant'' = ''adamant''"
    "property_string ! 0 @ ''_anything'' = ''input_shape_anything''"
    by (simp_all add: optimizer_string_def property_string_def)
  have l: "(1::nat) < length optimizer_string" "(0::nat) < length property_string"
    by (simp_all add: optimizer_string_def property_string_def)
  have u: "unknown_index optimizer_string = 2" "unknown_index property_string = 7"
    by (simp_all add: unknown_index_def optimizer_string_def property_string_def)
  from suffix_accepted [of TOKEN_OPT optimizer_string 1 "''ant''"] t l(1) e(1)
  have r1: "parseType ''adamant'' TOKEN_OPT = 1" by simp
  from suffix_accepted [of _ _ 0 "''_anything''"] l(2) e(2)
  have r2: "parseLayerProperty ''input_shape_anything'' = 0" by simp
  from t e u r1 r2 show ?thesis by simp
qed




section \<open>The claims about the optimizer interface\<close>

text \<open>
  C5 (as the sources behave). Not every call of \<open>createOptimizer\<close> hands an instance
  back: when \<open>setProperty\<close> throws on the tokens it is given, here on the unknown key
  \<open>not_a_real_key=1\<close>, the exception leaves the factory, the new instance is deleted
  and the caller receives none.
\<close>

theorem createOptimizer_counterexample:
  "createOptimizer \<lparr>hyperparameters = [], book_keeping = []\<rparr> (setProperty [''learning_rate''])
     [''not_a_real_key=1''] [] = (Inl ConfigurationError, [])"
  using createOptimizer_Inl [of "setProperty [''learning_rate'']" "[''not_a_real_key=1'']"
      "\<lparr>hyperparameters = [], book_keeping = []\<rparr>" ConfigurationError "[]"]
    setProperty_not_a_real_key
  by simp

text \<open>
  C5 (amended). Every call of \<open>createOptimizer\<close> constructs one new instance and calls
  \<open>setProperty\<close> with the supplied tokens on it. When \<open>setProperty\<close> returns, the
  caller receives a pointer that was not live before, the store holds exactly one more
  object, the objects it held are unchanged and the new one is the configured instance.
  When \<open>setProperty\<close> throws, the exception reaches the caller and the store is as
  before the call. An instance that the factory returns is always the configured one.
\<close>

theorem createOptimizer_configures:
  "(setProperty_T props new_T = Inr configured \<longrightarrow>
      createOptimizer new_T setProperty_T props store = (Inr (length store), store @ [configured]))
   \<and> (setProperty_T props new_T = Inl e \<longrightarrow>
      createOptimizer new_T setProperty_T props store = (Inl e, store))
   \<and> (createOptimizer new_T setProperty_T props store = (Inr ptr, store') \<longrightarrow>
      \<not> ptr < length store \<and> length store' = length store + 1
      \<and> take (length store) store' = store
      \<and> setProperty_T props new_T = Inr (store' ! ptr))"
proof -
  have a: "createOptimizer new_T setProperty_T props store
      = (Inr (length store), store @ [configured])"
    if "setProperty_T props new_T = Inr configured"
    using that by (simp add: createOptimizer_def Let_def)
  have b: "createOptimizer new_T setProperty_T props store = (Inl e, store)"
    if "setProperty_T props new_T = Inl e"
    using that by (simp add: createOptimizer_def Let_def)
  have c: "\<not> ptr < length store \<and> length store' = length store + 1
      \<and> take (length store) store' = store
      \<and> setProperty_T props new_T = Inr (store' ! ptr)"
    if r: "createOptimizer new_T setProperty_T props store = (Inr ptr, store')"
  proof (cases "setProperty_T props new_T")
    case (Inl e')
    with r show ?thesis by (simp add: createOptimizer_def Let_def)
  next
    case (Inr c)
    with r show ?thesis by (auto simp add: createOptimizer_def Let_def)
  qed
  from a b c show ?thesis by blast
qed

theorem createOptimizer_configures_witness:
  "setProperty [''learning_rate''] [''learning_rate=0.05'']
       \<lparr>hyperparameters = [], book_keeping = []\<rparr>
     = Inr \<lparr>hyperparameters = [(0, ''learning_rate=0.05'')], book_keeping = []\<rparr>
   \<and> createOptimizer \<lparr>hyperparameters = [], book_keeping = []\<rparr>
        (setProperty [''learning_rate'']) [''learning_rate=0.05'']
        [\<lparr>hyperparameters = [(0, ''learning_rate=0.1'')], book_keeping = []\<rparr>]
      = (Inr 1, [\<lparr>hyperparameters = [(0, ''learning_rate=0.1'')], book_keeping = []\<rparr>,
                 \<lparr>hyperparameters = [(0, ''learning_rate=0.05'')], book_keeping = []\<rparr>])
   \<and> setProperty [''learning_rate''] [''made_up_key=1'']
       \<lparr>hyperparameters = [], book_keeping = []\<rparr>
     = Inl ConfigurationError
   \<and> createOptimizer \<lparr>hyperparameters = [], book_keeping = []\<rparr>
        (setProperty [''learning_rate'']) [''made_up_key=1'']
        [\<lparr>hyperparameters = [(0, ''learning_rate=0.1'')], book_keeping = []\<rparr>]
      = (Inl ConfigurationError,
         [\<lparr>hyperparameters = [(0, ''learning_rate=0.1'')], book_keeping = []\<rparr>])"
proof -
  have s1: "setProperty [''learning_rate''] [''learning_rate=0.05'']
       \<lparr>hyperparameters = [], book_keeping = []\<rparr>
     = Inr \<lparr>hyperparameters = [(0, ''learning_rate=0.05'')], book_keeping = []\<rparr>"
    by code_simp
  have s2: "setProperty [''learning_rate''] [''made_up_key=1'']
       \<lparr>hyperparameters = [], book_keeping = []\<rparr>
     = Inl ConfigurationError" by code_simp
  note r1 = createOptimizer_configures
    [where setProperty_T = "setProperty [''learning_rate'']" and props = "[''learning_rate=0.05'']"
      and new_T = "\<lparr>hyperparameters = [], book_keeping = []\<rparr>"
      and store = "[\<lparr>hyperparameters = [(0, ''learning_rate=0.1'')], book_keeping = []\<rparr>]",
      THEN conjunct1, THEN mp, OF s1]
  note r2 = createOptimizer_configures
    [where setProperty_T = "setProperty [''learning_rate'']" and props = "[''made_up_key=1'']"
      and new_T = "\<lparr>hyperparameters = [], book_keeping = []\<rparr>"
      and store = "[\<lparr>hyperparameters = [(0, ''learning_rate=0.1'')], book_keeping = []\<rparr>]",
      THEN conjunct2, THEN conjunct1, THEN mp, OF s2]
  from s1 s2 r1 r2 show ?thesis by simp
qed

text \<open>
  C6. \<open>save\<close> followed by \<open>read\<close> into a fresh instance with the same properties is
  an exact round trip: \<open>read\<close> succeeds, the fresh instance becomes equal to the saved
  one, so its scalar state is reproduced byte for byte, what followed the checkpoint in
  the stream is left over, and for every \<open>applyGradient\<close> and every later sequence of
  contexts both instances leave the same contexts behind.
\<close>

theorem save_read_round_trip:
  "map length (book_keeping a) = widths \<and> hyperparameters fresh = hyperparameters a \<longrightarrow>
     read widths fresh (save a [] @ rest) = (Inr (), a, rest)
     \<and> book_keeping (fst (snd (read widths fresh (save a [] @ rest)))) = book_keeping a
     \<and> train applyGradient (fst (snd (read widths fresh (save a [] @ rest)))) contexts
         = train applyGradient a contexts"
proof
  assume h: "map length (book_keeping a) = widths \<and> hyperparameters fresh = hyperparameters a"
  then have r: "fresh\<lparr>book_keeping := book_keeping a\<rparr> = a" by simp
  have "read (map length (book_keeping a)) fresh (save a [] @ rest) = (Inr (), a, rest)"
    by (simp add: read_def save_def sum_list_widths split_fields_concat r)
  with h have "read widths fresh (save a [] @ rest) = (Inr (), a, rest)" by simp
  then show "read widths fresh (save a [] @ rest) = (Inr (), a, rest)
     \<and> book_keeping (fst (snd (read widths fresh (save a [] @ rest)))) = book_keeping a
     \<and> train applyGradient (fst (snd (read widths fresh (save a [] @ rest)))) contexts
         = train applyGradient a contexts" by simp
qed

theorem save_read_round_trip_witness:
  "map length (book_keeping \<lparr>hyperparameters = [(5, ''epsilon=0.1'')],
       book_keeping = [''abcd'', ''ef'']\<rparr>) = [4, 2]
   \<and> save \<lparr>hyperparameters = [(5, ''epsilon=0.1'')], book_keeping = [''abcd'', ''ef'']\<rparr> []
       = ''abcdef''
   \<and> read [4, 2] \<lparr>hyperparameters = [(5, ''epsilon=0.1'')], book_keeping = [''0000'', ''00'']\<rparr>
         ''abcdefrest''
       = (Inr (), \<lparr>hyperparameters = [(5, ''epsilon=0.1'')], book_keeping = [''abcd'', ''ef'']\<rparr>,
          ''rest'')"
proof -
  have w: "map length (book_keeping \<lparr>hyperparameters = [(5, ''epsilon=0.1'')],
       book_keeping = [''abcd'', ''ef'']\<rparr>) = [4, 2]" by simp
  have h: "hyperparameters \<lparr>hyperparameters = [(5, ''epsilon=0.1'')],
       book_keeping = [''0000'', ''00'']\<rparr>
     = hyperparameters \<lparr>hyperparameters = [(5, ''epsilon=0.1'')],
       book_keeping = [''abcd'', ''ef'']\<rparr>" by simp
  have s: "save \<lparr>hyperparameters = [(5, ''epsilon=0.1'')], book_keeping = [''abcd'', ''ef'']\<rparr> []
       = ''abcdef''" by (simp add: save_def)
  note r = save_read_round_trip
    [where a = "\<lparr>hyperparameters = [(5, ''epsilon=0.1'')], book_keeping = [''abcd'', ''ef'']\<rparr>"
      and fresh = "\<lparr>hyperparameters = [(5, ''epsilon=0.1'')], book_keeping = [''0000'', ''00'']\<rparr>"
      and widths = "[4, 2]" and rest = "''rest''", THEN mp, OF conjI, OF w h, THEN conjunct1]
  from r s have "read [4, 2]
      \<lparr>hyperparameters = [(5, ''epsilon=0.1'')], book_keeping = [''0000'', ''00'']\<rparr>
      ''abcdefrest''
    = (Inr (), \<lparr>hyperparameters = [(5, ''epsilon=0.1'')], book_keeping = [''abcd'', ''ef'']\<rparr>,
       ''rest'')" by simp
  with w s show ?thesis by simp
qed

text \<open>
  C7. The default \<open>exportTo\<close> and \<open>finalize\<close> of the base class do nothing: a call
  leaves the instance as it was, and \<open>exportTo\<close> leaves the exporter as it was.
\<close>

theorem default_hooks_no_op:
  "Optimizer_exportTo this exporter method = (this, exporter) \<and> Optimizer_finalize this = this"
  by (simp add: Optimizer_exportTo_def Optimizer_finalize_def)

end
